theory Spec2Isabelle
  imports Main "HOL-Library.Word" "HOL-Library.Sublist"
begin

section \<open>JavaScript strings\<close>

text \<open>
  A JavaScript string is a sequence of UTF-16 code units; \<open>length\<close>, \<open>slice\<close>, \<open>split\<close>,
  \<open>trim\<close> and a regular expression without the \<open>u\<close> flag all work on code units.
  \<open>js\<close> turns an ASCII literal into such a string.
\<close>

type_synonym jsstring = "16 word list"

definition js :: "string \<Rightarrow> jsstring" where
  "js s = map (\<lambda>c. of_char c) s"

text \<open>\<open>s.split(sep)\<close> for a separator of one code unit: never the empty list.\<close>

fun split :: "16 word \<Rightarrow> jsstring \<Rightarrow> jsstring list" where
  "split sep [] = [[]]"
| "split sep (c # cs) =
     (if c = sep then [] # split sep cs
      else (case split sep cs of
              [] \<Rightarrow> [[c]]
            | p # ps \<Rightarrow> (c # p) # ps))"

text \<open>
  The code units \<open>String.prototype.trim\<close> strips: WhiteSpace (TAB, VT, FF, ZWNBSP and the
  Unicode space separators) and LineTerminator (LF, CR, LS, PS).
\<close>

definition isWhiteSpace :: "16 word \<Rightarrow> bool" where
  "isWhiteSpace c \<longleftrightarrow>
     c = 0x0009 \<or> c = 0x000B \<or> c = 0x000C \<or> c = 0xFEFF \<or>
     c = 0x0020 \<or> c = 0x00A0 \<or> c = 0x1680 \<or> (0x2000 \<le> c \<and> c \<le> 0x200A) \<or>
     c = 0x202F \<or> c = 0x205F \<or> c = 0x3000 \<or>
     c = 0x000A \<or> c = 0x000D \<or> c = 0x2028 \<or> c = 0x2029"

definition trim :: "jsstring \<Rightarrow> jsstring" where
  "trim s = rev (dropWhile isWhiteSpace (rev (dropWhile isWhiteSpace s)))"

text \<open>\<open>Boolean(s)\<close> on a string: only the empty string is falsy.\<close>

definition Boolean :: "jsstring \<Rightarrow> bool" where
  "Boolean s \<longleftrightarrow> s \<noteq> []"

text \<open>The decimal rendering of a non-negative integer, as a template literal prints it.\<close>

definition digit :: "nat \<Rightarrow> 16 word" where
  "digit d = 0x30 + of_nat d"

function decimal :: "nat \<Rightarrow> jsstring" where
  "decimal n = (if n < 10 then [digit n] else decimal (n div 10) @ [digit (n mod 10)])"
  by pat_completeness auto
termination
  by (relation "measure (\<lambda>n. n)") auto

declare decimal.simps [simp del]

section \<open>Data model and environment\<close>

text \<open>
  \<open>interface GeneratedQR { id; url; dataUrl }\<close> and
  \<open>interface ScanResult { fileName; decodedText }\<close>.
\<close>

record GeneratedQR =
  qr_id :: jsstring
  qr_url :: jsstring
  qr_dataUrl :: jsstring

record ScanResult =
  fileName :: jsstring
  decodedText :: jsstring

text \<open>A thrown or rejected value, and an uploaded \<open>File\<close>.\<close>

datatype js_error = Error jsstring

record File =
  file_name :: jsstring
  file_bytes :: "8 word list"

type_synonym blob = "8 word list"

text \<open>
  The archive under construction (\<open>new JSZip()\<close>): entries by name, each with the
  base64 text handed to \<open>zip.file\<close> (\<open>None\<close> for \<open>undefined\<close>).
\<close>

type_synonym zip = "(jsstring \<times> jsstring option) list"

text \<open>
  What a handler does to the outside world, in the order it does it: calls of the QR
  codec, console output, blocking notices, the download trigger, the capture device and
  the reset of the file input.
\<close>

datatype effect =
    EncodeCall jsstring
  | DecodeCall File
  | ConsoleError jsstring js_error
  | ConsoleWarn jsstring js_error
  | Alert jsstring
  | SaveAs blob jsstring
  | StartCapture
  | StopCapture
  | ClearInput

section \<open>BulkGeneratorView\<close>

text \<open>
  The component state \<open>urls\<close>, \<open>qrs\<close>, \<open>isLoading\<close>, together with the number of
  \<open>Math.random()\<close> calls made so far and the effects performed so far.
\<close>

record BulkGeneratorView =
  urls :: jsstring
  qrs :: "GeneratedQR list"
  isLoading :: bool
  randomCalls :: nat
  trace :: "effect list"

text \<open>\<open>urls.split('\n').map(u => u.trim()).filter(Boolean)\<close>\<close>

definition urlList :: "jsstring \<Rightarrow> jsstring list" where
  "urlList text = filter Boolean (map trim (split 0x0A text))"

text \<open>
  The body of \<open>for (const url of urlList)\<close>, one call after the other. \<open>toDataURL\<close> is
  \<open>QRCode.toDataURL\<close> at the fixed options (\<open>Inl\<close> when the awaited promise rejects);
  \<open>random n\<close> is what the \<open>n\<close>-th \<open>Math.random()\<close> of the session prints as.
\<close>

fun generateLoop ::
  "(jsstring \<Rightarrow> js_error + jsstring) \<Rightarrow> (nat \<Rightarrow> jsstring) \<Rightarrow> jsstring list \<Rightarrow>
   GeneratedQR list \<Rightarrow> BulkGeneratorView \<Rightarrow> GeneratedQR list \<times> BulkGeneratorView" where
  "generateLoop toDataURL random [] generatedQrs s = (generatedQrs, s)"
| "generateLoop toDataURL random (u # rest) generatedQrs s =
     (let s1 = s\<lparr>trace := trace s @ [EncodeCall u]\<rparr> in
      case toDataURL u of
        Inr d \<Rightarrow>
          generateLoop toDataURL random rest
            (generatedQrs @
               [\<lparr>qr_id = js ''qr-'' @ random (randomCalls s1), qr_url = u, qr_dataUrl = d\<rparr>])
            (s1\<lparr>randomCalls := Suc (randomCalls s1)\<rparr>)
      | Inl err \<Rightarrow>
          generateLoop toDataURL random rest generatedQrs
            (s1\<lparr>trace := trace s1 @
                    [ConsoleError (js ''Failed to generate QR for '' @ u) err]\<rparr>))"

definition generateBulk ::
  "(jsstring \<Rightarrow> js_error + jsstring) \<Rightarrow> (nat \<Rightarrow> jsstring) \<Rightarrow>
   BulkGeneratorView \<Rightarrow> BulkGeneratorView" where
  "generateBulk toDataURL random s =
     (let us = urlList (urls s) in
      if length us = 0 then s
      else
        let s1 = s\<lparr>isLoading := True\<rparr>;
            (generatedQrs, s2) = generateLoop toDataURL random us [] s1
        in s2\<lparr>qrs := generatedQrs, isLoading := False\<rparr>)"

text \<open>The lines of a batch that encode, each with its image, in input order.\<close>

definition encodes :: "(jsstring \<Rightarrow> js_error + jsstring) \<Rightarrow> jsstring \<Rightarrow> bool" where
  "encodes toDataURL u = (case toDataURL u of Inr d \<Rightarrow> True | Inl e \<Rightarrow> False)"

fun successes ::
  "(jsstring \<Rightarrow> js_error + jsstring) \<Rightarrow> jsstring list \<Rightarrow> (jsstring \<times> jsstring) list" where
  "successes toDataURL [] = []"
| "successes toDataURL (u # us) =
     (case toDataURL u of
        Inr d \<Rightarrow> (u, d) # successes toDataURL us
      | Inl e \<Rightarrow> successes toDataURL us)"

text \<open>The codec calls of a trace, in order.\<close>

fun encodeCalls :: "effect list \<Rightarrow> jsstring list" where
  "encodeCalls [] = []"
| "encodeCalls (EncodeCall u # es) = u # encodeCalls es"
| "encodeCalls (e # es) = encodeCalls es"

fun decodeCalls :: "effect list \<Rightarrow> File list" where
  "decodeCalls [] = []"
| "decodeCalls (DecodeCall f # es) = f # decodeCalls es"
| "decodeCalls (e # es) = decodeCalls es"

section \<open>The archive exporter\<close>

text \<open>
  The character class of \<open>/[^a-z0-9]/gi\<close>, on one code unit. Without the \<open>u\<close> flag the
  \<open>i\<close> flag compares upper-cased code units and never maps a code unit from 128 on to one
  below 128, so the class \<open>[a-z0-9]\<close> accepts the ASCII letters of both cases and the
  ASCII digits, and nothing else.
\<close>

definition inClass_az09_i :: "16 word \<Rightarrow> bool" where
  "inClass_az09_i c \<longleftrightarrow>
     (let C = (if 0x61 \<le> c \<and> c \<le> 0x7A then c - 0x20 else c)
      in (0x41 \<le> C \<and> C \<le> 0x5A) \<or> (0x30 \<le> C \<and> C \<le> 0x39))"

text \<open>\<open>s.replace(re, r)\<close> for a global one-code-unit pattern \<open>re\<close> and a literal \<open>r\<close>.\<close>

fun replaceAll :: "(16 word \<Rightarrow> bool) \<Rightarrow> jsstring \<Rightarrow> jsstring \<Rightarrow> jsstring" where
  "replaceAll matches r [] = []"
| "replaceAll matches r (c # cs) =
     (if matches c then r @ replaceAll matches r cs else c # replaceAll matches r cs)"

text \<open>\<open>s.slice(0, n)\<close>\<close>

definition slice0 :: "nat \<Rightarrow> jsstring \<Rightarrow> jsstring" where
  "slice0 n s = take n s"

text \<open>
  \<open>qr.url.replace(/[^a-z0-9]/gi, '_').slice(0, 50) || `qrcode_${index + 1}`\<close>,
  with \<open>index\<close> the position \<open>forEach\<close> passes (from 0).
\<close>

definition fileName_of :: "jsstring \<Rightarrow> nat \<Rightarrow> jsstring" where
  "fileName_of u index =
     (let name = slice0 50 (replaceAll (\<lambda>c. \<not> inClass_az09_i c) (js ''_'') u)
      in if Boolean name then name else js ''qrcode_'' @ decimal (index + 1))"

text \<open>
  The derivation in the specification's words: every character outside \<open>[a-zA-Z0-9]\<close>
  becomes \<open>_\<close>, the result is cut to 50 characters, and an empty result falls back to
  \<open>qrcode_\<close> followed by the 1-based index \<open>k\<close>.
\<close>

definition alnum :: "16 word set" where
  "alnum = {0x61 .. 0x7A} \<union> {0x41 .. 0x5A} \<union> {0x30 .. 0x39}"

definition derivedName :: "jsstring \<Rightarrow> nat \<Rightarrow> jsstring" where
  "derivedName text k =
     (let t = take 50 (map (\<lambda>c. if c \<in> alnum then c else 0x5F) text)
      in if t = [] then js ''qrcode_'' @ decimal k else t)"

text \<open>\<open>qr.dataUrl.split(',')[1]\<close>: \<open>undefined\<close> when the text has no comma.\<close>

definition base64Part :: "jsstring \<Rightarrow> jsstring option" where
  "base64Part d = (case split 0x2C d of p # q # ps \<Rightarrow> Some q | _ \<Rightarrow> None)"

text \<open>
  Modelled from the spec: the archive library is not part of the repository. Section 4.3
  has it hold named entries and lets a later entry of the same name overwrite the
  earlier one: \<open>zip.file(name, data, { base64: true })\<close> adds the entry or replaces it
  in place.
\<close>

fun zip_file :: "jsstring \<Rightarrow> jsstring option \<Rightarrow> zip \<Rightarrow> zip" where
  "zip_file name d [] = [(name, d)]"
| "zip_file name d ((n, x) # z) =
     (if n = name then (name, d) # z else (n, x) # zip_file name d z)"

text \<open>\<open>qrs.forEach((qr, index) => { ... zip.file(`${fileName}.png`, ...) })\<close>\<close>

fun addEntries :: "GeneratedQR list \<Rightarrow> nat \<Rightarrow> zip \<Rightarrow> zip" where
  "addEntries [] index z = z"
| "addEntries (qr # rest) index z =
     addEntries rest (Suc index)
       (zip_file (fileName_of (qr_url qr) index @ js ''.png'') (base64Part (qr_dataUrl qr)) z)"

text \<open>
  \<open>generateAsync\<close> is \<open>zip.generateAsync({ type: 'blob' })\<close> (\<open>Inl\<close> when the promise
  rejects) and \<open>now\<close> is \<open>Date.now()\<close>. The promise has a \<open>then\<close> and no \<open>catch\<close>: a
  rejection runs no code of the handler.
\<close>

definition downloadZip ::
  "(zip \<Rightarrow> js_error + blob) \<Rightarrow> nat \<Rightarrow> BulkGeneratorView \<Rightarrow> BulkGeneratorView" where
  "downloadZip generateAsync now s =
     (let z = addEntries (qrs s) 0 [] in
      case generateAsync z of
        Inr content \<Rightarrow>
          s\<lparr>trace := trace s @ [SaveAs content (js ''qrcodes_'' @ decimal now @ js ''.zip'')]\<rparr>
      | Inl err \<Rightarrow> s)"

text \<open>The entry names \<open>forEach\<close> derives, one per result, from position \<open>index\<close> on.\<close>

fun entryNames :: "GeneratedQR list \<Rightarrow> nat \<Rightarrow> jsstring list" where
  "entryNames [] index = []"
| "entryNames (qr # rest) index =
     (fileName_of (qr_url qr) index @ js ''.png'') # entryNames rest (Suc index)"

text \<open>
  The entries \<open>forEach\<close> hands to \<open>zip.file\<close>, one per result and in list order: the
  entry name and the base64 text of the image.
\<close>

fun entryList :: "GeneratedQR list \<Rightarrow> nat \<Rightarrow> (jsstring \<times> jsstring option) list" where
  "entryList [] index = []"
| "entryList (qr # rest) index =
     (fileName_of (qr_url qr) index @ js ''.png'', base64Part (qr_dataUrl qr))
       # entryList rest (Suc index)"

section \<open>ScannerView\<close>

text \<open>
  An \<open>Html5Qrcode\<close> instance, with what its \<open>isScanning\<close> getter answers: the capture
  device is open exactly while it answers true.
\<close>

datatype Html5Qrcode = Html5Qrcode (h5_isScanning: bool)

text \<open>
  The component state \<open>scanResults\<close>, \<open>isScanning\<close>, \<open>isProcessingFile\<close>, the mutable
  \<open>scannerRef.current\<close>, and the effects performed so far.
\<close>

record ScannerView =
  scanResults :: "ScanResult list"
  isScanning :: bool
  isProcessingFile :: bool
  scannerRef :: "Html5Qrcode option"
  scanTrace :: "effect list"

text \<open>
  \<open>stopScan\<close>. \<open>stopped\<close> is how the promise of \<open>scannerRef.current.stop()\<close> settles:
  \<open>None\<close> when it resolves, \<open>Some err\<close> when it rejects; a rejected stop leaves the
  instance as it was.
\<close>

definition stopScan :: "js_error option \<Rightarrow> ScannerView \<Rightarrow> ScannerView" where
  "stopScan stopped s =
     (case scannerRef s of
        None \<Rightarrow> s
      | Some sc \<Rightarrow>
          if h5_isScanning sc then
            (let s1 = s\<lparr>scanTrace := scanTrace s @ [StopCapture]\<rparr> in
             case stopped of
               None \<Rightarrow> s1\<lparr>isScanning := False, scannerRef := None\<rparr>
             | Some err \<Rightarrow>
                 s1\<lparr>scanTrace := scanTrace s1 @ [ConsoleError (js ''Failed to stop scanner'') err],
                    isScanning := False\<rparr>)
          else s)"

text \<open>The success callback handed to \<open>html5QrCode.start\<close>.\<close>

definition onScanSuccess :: "js_error option \<Rightarrow> jsstring \<Rightarrow> ScannerView \<Rightarrow> ScannerView" where
  "onScanSuccess stopped text s =
     stopScan stopped
       (s\<lparr>scanResults := [\<lparr>fileName = js ''Camera Scan'', decodedText = text\<rparr>]\<rparr>)"

text \<open>
  \<open>startScan\<close>. \<open>getCameras\<close> is how \<open>Html5Qrcode.getCameras()\<close> settles (the number of
  devices, or the rejection), \<open>started\<close> how the promise of \<open>html5QrCode.start\<close> does:
  the new instance is stored in \<open>scannerRef.current\<close> before the start, and scans once
  the start has resolved.
\<close>

definition startScan :: "js_error + nat \<Rightarrow> js_error option \<Rightarrow> ScannerView \<Rightarrow> ScannerView" where
  "startScan getCameras started s =
     (let s0 = s\<lparr>scanResults := []\<rparr> in
      case getCameras of
        Inl err \<Rightarrow>
          s0\<lparr>scanTrace := scanTrace s0 @
               [ConsoleError (js ''Camera permissions error:'') err,
                Alert (js ''Could not get camera permissions. Please allow camera access in your browser settings.'')]\<rparr>
      | Inr devices \<Rightarrow>
          if devices > 0 then
            (let s1 = s0\<lparr>isScanning := True, scanTrace := scanTrace s0 @ [StartCapture]\<rparr> in
             case started of
               None \<Rightarrow> s1\<lparr>scannerRef := Some (Html5Qrcode True)\<rparr>
             | Some err \<Rightarrow>
                 s1\<lparr>scannerRef := Some (Html5Qrcode False),
                    scanTrace := scanTrace s1 @ [ConsoleError (js ''Unable to start scanning.'') err],
                    isScanning := False\<rparr>)
          else s0)"

text \<open>
  \<open>handleFileChange\<close>. \<open>files\<close> is \<open>event.target.files\<close> (\<open>None\<close> for \<open>null\<close>);
  \<open>scanFile\<close> is \<open>html5QrCode.scanFile(file, false)\<close>, \<open>Inl\<close> when its promise rejects.
  All calls are issued by the \<open>map\<close>, in file order, before any result is awaited;
  \<open>Promise.all\<close> keeps the file order. The warnings for the rejected files are listed
  in file order too; the order in which the promises really settle is the library's.
\<close>

definition scanOne :: "(File \<Rightarrow> js_error + jsstring) \<Rightarrow> File \<Rightarrow> ScanResult option" where
  "scanOne scanFile f =
     (case scanFile f of
        Inr t \<Rightarrow> Some \<lparr>fileName = file_name f, decodedText = t\<rparr>
      | Inl err \<Rightarrow> None)"

definition scanWarnings :: "(File \<Rightarrow> js_error + jsstring) \<Rightarrow> File list \<Rightarrow> effect list" where
  "scanWarnings scanFile fs =
     concat (map (\<lambda>f. case scanFile f of
                         Inr t \<Rightarrow> []
                       | Inl err \<Rightarrow> [ConsoleWarn (js ''Could not scan file: '' @ file_name f) err]) fs)"

definition handleFileChange ::
  "(File \<Rightarrow> js_error + jsstring) \<Rightarrow> File list option \<Rightarrow> ScannerView \<Rightarrow> ScannerView" where
  "handleFileChange scanFile files s =
     (case files of
        None \<Rightarrow> s
      | Some fs \<Rightarrow>
          if length fs = 0 then s
          else if length fs > 10 then
            s\<lparr>scanTrace := scanTrace s @
                 [Alert (js ''You can upload a maximum of 10 files at a time.''), ClearInput]\<rparr>
          else
            (let s1 = s\<lparr>isProcessingFile := True, scanResults := []\<rparr>;
                 s2 = s1\<lparr>scanTrace := scanTrace s1 @ map DecodeCall fs @ scanWarnings scanFile fs\<rparr>;
                 allResults = map (scanOne scanFile) fs;
                 successfulScans =
                   concat (map (\<lambda>r. case r of Some x \<Rightarrow> [x] | None \<Rightarrow> []) allResults);
                 s3 = s2\<lparr>scanResults := successfulScans\<rparr>;
                 s4 = (if length successfulScans = 0 then
                         s3\<lparr>scanTrace := scanTrace s3 @
                              [Alert (js ''Could not find a QR code in any of the selected images. Please try different ones.'')]\<rparr>
                       else s3)
             in s4\<lparr>isProcessingFile := False, scanTrace := scanTrace s4 @ [ClearInput]\<rparr>))"

section \<open>The result classifier\<close>

text \<open>
  What \<open>new URL(text)\<close> gives: the parser belongs to the platform, so \<open>isSafeUrl\<close> takes
  it as \<open>newURL\<close>, \<open>Inl\<close> for the \<open>TypeError\<close> it throws on text that does not parse.
  A parsed URL has its scheme, in lower case; the \<open>protocol\<close> getter answers the scheme
  followed by a colon.
\<close>

record URL =
  scheme :: jsstring
  href :: jsstring

definition protocol :: "URL \<Rightarrow> jsstring" where
  "protocol u = scheme u @ js '':''"

definition isSafeUrl :: "(jsstring \<Rightarrow> js_error + URL) \<Rightarrow> jsstring \<Rightarrow> bool" where
  "isSafeUrl newURL text =
     (case newURL text of
        Inr parsedUrl \<Rightarrow>
          List.member [js ''https:'', js ''http:'', js ''mailto:'', js ''tel:''] (protocol parsedUrl)
      | Inl err \<Rightarrow> False)"

text \<open>The allow-list of the specification: the schemes a link may have.\<close>

definition allowed :: "jsstring set" where
  "allowed = {js ''https'', js ''http'', js ''mailto'', js ''tel''}"

text \<open>The view renders an anchor for a safe URL and a plain span otherwise.\<close>

datatype classification = Link | PlainText

definition classify :: "(jsstring \<Rightarrow> js_error + URL) \<Rightarrow> jsstring \<Rightarrow> classification" where
  "classify newURL text = (if isSafeUrl newURL text then Link else PlainText)"

section \<open>Sample inputs\<close>

text \<open>
  A codec that rejects texts of more than three code units, and a textarea of four lines:
  two that encode, one that does not, one blank.
\<close>

definition sampleCodec :: "jsstring \<Rightarrow> js_error + jsstring" where
  "sampleCodec u = (if length u \<le> 3 then Inr (js ''data:image/png;base64,'' @ u)
                    else Inl (Error (js ''The amount of data is too big'')))"

definition sampleBatch :: BulkGeneratorView where
  "sampleBatch = \<lparr>urls = js ''ab'' @ [0x0A] @ js '' toolong '' @ [0x0A, 0x0A] @ js ''cd'',
                   qrs = [], isLoading = False, randomCalls = 0, trace = []\<rparr>"

text \<open>
  Random values that print differently at every call, as \<open>0.1\<close>, \<open>0.3\<close>, \<open>0.5\<close> and on.
\<close>

definition sampleRandom :: "nat \<Rightarrow> jsstring" where
  "sampleRandom n = js ''0.'' @ decimal (2 * n + 1)"

text \<open>
  The view after a batch of two lines, and after the batch \<open>a.b\<close>, \<open>a/b\<close> whose two
  lines derive the same file name; an archive library that answers a blob of one byte
  per entry, and one whose promise rejects.
\<close>

definition sampleResults :: BulkGeneratorView where
  "sampleResults =
     \<lparr>urls = js ''ab'' @ [0x0A] @ js ''cd'',
      qrs = [\<lparr>qr_id = js ''qr-0.1'', qr_url = js ''ab'', qr_dataUrl = js ''data:image/png;base64,QQ==''\<rparr>,
             \<lparr>qr_id = js ''qr-0.3'', qr_url = js ''cd'', qr_dataUrl = js ''data:image/png;base64,Qg==''\<rparr>],
      isLoading = False, randomCalls = 2, trace = []\<rparr>"

definition sampleColliding :: BulkGeneratorView where
  "sampleColliding =
     \<lparr>urls = js ''a.b'' @ [0x0A] @ js ''a/b'',
      qrs = [\<lparr>qr_id = js ''qr-0.1'', qr_url = js ''a.b'', qr_dataUrl = js ''data:image/png;base64,QQ==''\<rparr>,
             \<lparr>qr_id = js ''qr-0.3'', qr_url = js ''a/b'', qr_dataUrl = js ''data:image/png;base64,Qg==''\<rparr>],
      isLoading = False, randomCalls = 2, trace = []\<rparr>"

definition sampleArchiver :: "zip \<Rightarrow> js_error + blob" where
  "sampleArchiver z = Inr (map (\<lambda>(n, d). of_nat (length n)) z)"

definition failingArchiver :: "zip \<Rightarrow> js_error + blob" where
  "failingArchiver z = Inl (Error (js ''Invalid base64 input''))"

text \<open>
  The scanner view before any scan, while capturing (a camera was found and the stream
  opened), and after an upload that decoded one image; uploaded files and a decoder that
  finds a code in every file that is not empty. A textarea of blank lines under the
  results of an earlier run.
\<close>

definition idleScanner :: ScannerView where
  "idleScanner = \<lparr>scanResults = [], isScanning = False, isProcessingFile = False,
                   scannerRef = None, scanTrace = []\<rparr>"

definition capturing :: ScannerView where
  "capturing = startScan (Inr 1) None idleScanner"

definition sampleFile :: "nat \<Rightarrow> File" where
  "sampleFile n = \<lparr>file_name = js ''img'' @ decimal n @ js ''.png'', file_bytes = [of_nat n]\<rparr>"

definition sampleDecoder :: "File \<Rightarrow> js_error + jsstring" where
  "sampleDecoder f = (if file_bytes f = [] then Inl (Error (js ''No MultiFormat Readers were able to detect the code.''))
                      else Inr (js ''https://x.com''))"

definition staleScanner :: ScannerView where
  "staleScanner = \<lparr>scanResults = [\<lparr>fileName = js ''old.png'', decodedText = js ''https://x.com''\<rparr>],
                    isScanning = False, isProcessingFile = False, scannerRef = None, scanTrace = []\<rparr>"

definition staleBatch :: BulkGeneratorView where
  "staleBatch =
     \<lparr>urls = js ''  '' @ [0x0A] @ js '' '',
      qrs = [\<lparr>qr_id = js ''qr-0.1'', qr_url = js ''ab'', qr_dataUrl = js ''data:image/png;base64,ab''\<rparr>],
      isLoading = False, randomCalls = 1, trace = []\<rparr>"

text \<open>
  What the platform's parser answers on the four texts of the specification's examples.
\<close>

definition urlTable :: "jsstring \<Rightarrow> js_error + URL" where
  "urlTable t =
     (if t = js ''https://x.com'' then Inr \<lparr>scheme = js ''https'', href = js ''https://x.com/''\<rparr>
      else if t = js ''tel:+123'' then Inr \<lparr>scheme = js ''tel'', href = js ''tel:+123''\<rparr>
      else if t = js ''ftp://x.com'' then Inr \<lparr>scheme = js ''ftp'', href = js ''ftp://x.com/''\<rparr>
      else Inl (Error (js ''Invalid URL'')))"

section \<open>The batch loop\<close>

lemma encodeCalls_append: "encodeCalls (xs @ ys) = encodeCalls xs @ encodeCalls ys"
  by (induction xs rule: encodeCalls.induct) simp_all

lemma decodeCalls_append: "decodeCalls (xs @ ys) = decodeCalls xs @ decodeCalls ys"
  by (induction xs rule: decodeCalls.induct) simp_all

lemma map_fst_successes: "map fst (successes enc us) = filter (encodes enc) us"
  by (induction us) (simp_all add: encodes_def split: sum.splits)

lemma generateLoop_pairs:
  "map (\<lambda>q. (qr_url q, qr_dataUrl q)) (fst (generateLoop enc rnd us acc s)) =
   map (\<lambda>q. (qr_url q, qr_dataUrl q)) acc @ successes enc us"
  by (induction us arbitrary: acc s) (simp_all add: Let_def split: sum.splits)

lemma generateLoop_urls:
  "map qr_url (fst (generateLoop enc rnd us acc s)) = map qr_url acc @ filter (encodes enc) us"
proof -
  have "map qr_url (fst (generateLoop enc rnd us acc s)) =
        map fst (map (\<lambda>q. (qr_url q, qr_dataUrl q)) (fst (generateLoop enc rnd us acc s)))"
    by (simp add: comp_def)
  also have "\<dots> = map qr_url acc @ map fst (successes enc us)"
    by (simp add: generateLoop_pairs comp_def)
  finally show ?thesis by (simp add: map_fst_successes)
qed

lemma generateLoop_calls:
  "encodeCalls (trace (snd (generateLoop enc rnd us acc s))) = encodeCalls (trace s) @ us"
  by (induction us arbitrary: acc s) (simp_all add: Let_def encodeCalls_append split: sum.splits)

lemma generateLoop_randomCalls:
  "randomCalls (snd (generateLoop enc rnd us acc s)) =
   randomCalls s + length (filter (encodes enc) us)"
  by (induction us arbitrary: acc s) (simp_all add: Let_def encodes_def split: sum.splits)

lemma generateLoop_ids:
  "map qr_id (fst (generateLoop enc rnd us acc s)) =
   map qr_id acc @
   map (\<lambda>i. js ''qr-'' @ rnd i)
     [randomCalls s ..< randomCalls s + length (filter (encodes enc) us)]"
proof (induction us arbitrary: acc s)
  case Nil
  show ?case by simp
next
  case (Cons u us)
  show ?case
  proof (cases "enc u")
    case (Inl e)
    then show ?thesis by (simp add: Cons.IH encodes_def)
  next
    case (Inr d)
    then show ?thesis
      by (simp add: Cons.IH encodes_def upt_conv_Cons del: upt_Suc)
  qed
qed

lemma generateLoop_frame:
  "urls (snd (generateLoop enc rnd us acc s)) = urls s \<and>
   qrs (snd (generateLoop enc rnd us acc s)) = qrs s \<and>
   isLoading (snd (generateLoop enc rnd us acc s)) = isLoading s"
  by (induction us arbitrary: acc s) (simp_all add: Let_def split: sum.splits)

lemma generateLoop_errors:
  "u \<in> set us \<Longrightarrow> enc u = Inl e \<Longrightarrow>
   ConsoleError (js ''Failed to generate QR for '' @ u) e
     \<in> set (trace (snd (generateLoop enc rnd us acc s)))"
proof (induction us arbitrary: acc s)
  case Nil
  then show ?case by simp
next
  case (Cons v vs)
  have mono: "\<And>x a t. x \<in> set (trace t) \<Longrightarrow>
      x \<in> set (trace (snd (generateLoop enc rnd vs a t)))"
  proof -
    fix x a t
    show "x \<in> set (trace t) \<Longrightarrow> x \<in> set (trace (snd (generateLoop enc rnd vs a t)))"
      by (induction vs arbitrary: a t) (simp_all add: Let_def split: sum.splits)
  qed
  show ?case
  proof (cases "u = v")
    case True
    with Cons.prems show ?thesis by (simp add: mono)
  next
    case False
    with Cons.prems have "u \<in> set vs" by simp
    then show ?thesis
      using Cons.IH Cons.prems(2) by (simp add: Let_def split: sum.splits)
  qed
qed

lemma generateBulk_qrs:
  assumes "urlList (urls s) \<noteq> []"
  shows "qrs (generateBulk enc rnd s) =
         fst (generateLoop enc rnd (urlList (urls s)) [] (s\<lparr>isLoading := True\<rparr>))"
  using assms by (simp add: generateBulk_def Let_def split: prod.splits)

lemma generateBulk_trace:
  assumes "urlList (urls s) \<noteq> []"
  shows "trace (generateBulk enc rnd s) =
         trace (snd (generateLoop enc rnd (urlList (urls s)) [] (s\<lparr>isLoading := True\<rparr>)))"
  using assms by (simp add: generateBulk_def Let_def split: prod.splits)

lemma generateBulk_isLoading:
  assumes "urlList (urls s) \<noteq> []"
  shows "isLoading (generateBulk enc rnd s) = False"
  using assms by (simp add: generateBulk_def Let_def split: prod.splits)

section \<open>The lines of a batch\<close>

lemma trim_ends:
  assumes "trim s \<noteq> []"
  shows "\<not> isWhiteSpace (hd (trim s)) \<and> \<not> isWhiteSpace (last (trim s))"
proof -
  let ?ys = "dropWhile isWhiteSpace s"
  let ?r = "rev (dropWhile isWhiteSpace (rev ?ys))"
  have r: "trim s = ?r" by (simp add: trim_def)
  have ne: "dropWhile isWhiteSpace (rev ?ys) \<noteq> []" using assms r by simp
  have "last ?r = hd (dropWhile isWhiteSpace (rev ?ys))"
    using ne by (simp add: last_rev)
  then have l: "\<not> isWhiteSpace (last ?r)"
    using ne hd_dropWhile by metis
  have "rev ?ys = takeWhile isWhiteSpace (rev ?ys) @ dropWhile isWhiteSpace (rev ?ys)"
    by simp
  then have "rev (rev ?ys) = rev (takeWhile isWhiteSpace (rev ?ys) @ dropWhile isWhiteSpace (rev ?ys))"
    by simp
  then have split: "?ys = ?r @ rev (takeWhile isWhiteSpace (rev ?ys))"
    by (simp only: rev_rev_ident rev_append)
  have rne: "?r \<noteq> []" using ne by simp
  have "hd ?ys = hd ?r"
    using rne split by (metis hd_append2)
  moreover have "?ys \<noteq> []" using rne split by (metis append_is_Nil_conv)
  ultimately have h: "\<not> isWhiteSpace (hd ?r)"
    using hd_dropWhile by metis
  from h l r show ?thesis by simp
qed

lemma urlList_trimmed:
  assumes "u \<in> set (urlList text)"
  shows "u \<noteq> [] \<and> \<not> isWhiteSpace (hd u) \<and> \<not> isWhiteSpace (last u)"
proof -
  from assms obtain l where u: "u = trim l" and ne: "u \<noteq> []"
    by (auto simp: urlList_def Boolean_def)
  with trim_ends [of l] show ?thesis by simp
qed

lemma sampleBatch_lines: "urlList (urls sampleBatch) = [js ''ab'', js ''toolong'', js ''cd'']"
  by (simp add: sampleBatch_def urlList_def trim_def isWhiteSpace_def Boolean_def js_def)

lemma sampleBatch_K: "length (filter (encodes sampleCodec) [js ''ab'', js ''toolong'', js ''cd'']) = 2"
  by (simp add: encodes_def sampleCodec_def js_def)

lemma staleBatch_lines: "urlList (urls staleBatch) = []"
  by (simp add: staleBatch_def urlList_def trim_def isWhiteSpace_def Boolean_def js_def)

section \<open>C1: the batch encode orchestrator returns the successes\<close>

text \<open>
  Claim C1, as amended. For a non-empty batch of \<open>N\<close> trimmed, non-empty lines (the list
  \<open>generateBulk\<close> gets from the textarea) of which exactly \<open>K\<close> encode, the result list
  handed to \<open>setQrs\<close> has length \<open>K\<close>, the source text of every element is one of
  the lines, the successes keep their relative order (the source texts are the encoding
  lines, as a subsequence of the batch), and the run completes: every rejected line is
  logged by \<open>console.error\<close> and skipped, and \<open>isLoading\<close> is reset.
  \<open>urlList_trimmed\<close> shows the lines of a batch are non-empty and trimmed.
\<close>

theorem generateBulk_batch:
  assumes "urlList (urls s) = lines" and "lines \<noteq> []"
    and "length (filter (encodes toDataURL) lines) = K"
  shows "length (qrs (generateBulk toDataURL random s)) = K \<and>
         (\<forall>q \<in> set (qrs (generateBulk toDataURL random s)). qr_url q \<in> set lines) \<and>
         subseq (map qr_url (qrs (generateBulk toDataURL random s))) lines \<and>
         map qr_url (qrs (generateBulk toDataURL random s)) = filter (encodes toDataURL) lines \<and>
         \<not> isLoading (generateBulk toDataURL random s) \<and>
         (\<forall>u \<in> set lines. \<forall>e. toDataURL u = Inl e \<longrightarrow>
            ConsoleError (js ''Failed to generate QR for '' @ u) e
              \<in> set (trace (generateBulk toDataURL random s)))"
proof -
  let ?s' = "generateBulk toDataURL random s"
  have ne: "urlList (urls s) \<noteq> []" using assms by simp
  have urls: "map qr_url (qrs ?s') = filter (encodes toDataURL) lines"
    using assms(1) by (simp add: generateBulk_qrs [OF ne] generateLoop_urls)
  have len: "length (qrs ?s') = K"
    using urls assms(3) by (metis length_map)
  have mem: "\<forall>q \<in> set (qrs ?s'). qr_url q \<in> set lines"
  proof
    fix q assume "q \<in> set (qrs ?s')"
    then have "qr_url q \<in> set (map qr_url (qrs ?s'))" by simp
    then show "qr_url q \<in> set lines" by (simp add: urls)
  qed
  have sub: "subseq (map qr_url (qrs ?s')) lines"
    by (simp add: urls)
  have load: "\<not> isLoading ?s'"
    by (simp add: generateBulk_isLoading [OF ne])
  have errs: "\<forall>u \<in> set lines. \<forall>e. toDataURL u = Inl e \<longrightarrow>
            ConsoleError (js ''Failed to generate QR for '' @ u) e \<in> set (trace ?s')"
    using assms(1) by (simp add: generateBulk_trace [OF ne] generateLoop_errors)
  from len mem sub urls load errs show ?thesis by blast
qed


theorem generateBulk_batch_witness:
  "urlList (urls sampleBatch) = [js ''ab'', js ''toolong'', js ''cd''] \<and>
   length (filter (encodes sampleCodec) [js ''ab'', js ''toolong'', js ''cd'']) = 2 \<and>
   length (qrs (generateBulk sampleCodec decimal sampleBatch)) = 2 \<and>
   map qr_url (qrs (generateBulk sampleCodec decimal sampleBatch)) = [js ''ab'', js ''cd''] \<and>
   \<not> isLoading (generateBulk sampleCodec decimal sampleBatch)"
proof -
  have ne: "[js ''ab'', js ''toolong'', js ''cd''] \<noteq> []" by simp
  have f: "filter (encodes sampleCodec) [js ''ab'', js ''toolong'', js ''cd''] = [js ''ab'', js ''cd'']"
    by (simp add: encodes_def sampleCodec_def js_def)
  note th = generateBulk_batch [OF sampleBatch_lines ne sampleBatch_K, of decimal]
  from th have a: "length (qrs (generateBulk sampleCodec decimal sampleBatch)) = 2" by (rule conjunct1)
  from th have b: "map qr_url (qrs (generateBulk sampleCodec decimal sampleBatch)) =
      filter (encodes sampleCodec) [js ''ab'', js ''toolong'', js ''cd'']" by blast
  from th have c: "\<not> isLoading (generateBulk sampleCodec decimal sampleBatch)" by blast
  from a b c f sampleBatch_lines sampleBatch_K show ?thesis by (simp only: simp_thms)
qed


text \<open>
  The claim as written fails on the empty batch: \<open>generateBulk\<close> returns before
  \<open>setQrs\<close>, so after an earlier run the result list keeps its one element although
  no line, and so no success, is in the batch.
\<close>

theorem generateBulk_batch_counterexample:
  "urlList (urls staleBatch) = [] \<and>
   length (filter (encodes sampleCodec) (urlList (urls staleBatch))) = 0 \<and>
   length (qrs (generateBulk sampleCodec sampleRandom staleBatch)) = 1"
proof -
  have k: "length (filter (encodes sampleCodec) (urlList (urls staleBatch))) = 0"
    by (simp add: staleBatch_lines)
  have "generateBulk sampleCodec sampleRandom staleBatch = staleBatch"
    by (simp add: generateBulk_def staleBatch_lines)
  then have r: "length (qrs (generateBulk sampleCodec sampleRandom staleBatch)) = 1"
    by (simp add: staleBatch_def)
  from staleBatch_lines k r show ?thesis by (intro conjI)
qed

section \<open>C10: the result list follows the input order\<close>

lemma successes_sound: "(u, d) \<in> set (successes enc us) \<Longrightarrow> enc u = Inr d"
  by (induction us) (auto split: sum.splits)

text \<open>
  Claim C10, as amended. For a non-empty list of lines, the codec calls are issued one
  after the other, in the order of the lines, and the result list handed to \<open>setQrs\<close>
  is the list of the lines that encode, each with its own image, in input order: its
  \<open>k\<close>-th element holds the \<open>k\<close>-th line that encodes and the image the codec gave
  for it.
\<close>

theorem generateBulk_input_order:
  assumes "urlList (urls s) = lines" and "lines \<noteq> []"
  shows "map (\<lambda>q. (qr_url q, qr_dataUrl q)) (qrs (generateBulk toDataURL random s)) =
           successes toDataURL lines \<and>
         (\<forall>k < length (qrs (generateBulk toDataURL random s)).
            qr_url (qrs (generateBulk toDataURL random s) ! k) =
              filter (encodes toDataURL) lines ! k \<and>
            toDataURL (filter (encodes toDataURL) lines ! k) =
              Inr (qr_dataUrl (qrs (generateBulk toDataURL random s) ! k))) \<and>
         encodeCalls (trace (generateBulk toDataURL random s)) = encodeCalls (trace s) @ lines"
proof -
  define res where "res = qrs (generateBulk toDataURL random s)"
  have ne: "urlList (urls s) \<noteq> []" using assms by simp
  have pairs: "map (\<lambda>q. (qr_url q, qr_dataUrl q)) res = successes toDataURL lines"
    using assms(1) by (simp add: res_def generateBulk_qrs [OF ne] generateLoop_pairs)
  have calls: "encodeCalls (trace (generateBulk toDataURL random s)) = encodeCalls (trace s) @ lines"
    using assms(1) by (simp add: generateBulk_trace [OF ne] generateLoop_calls)
  have len: "length (successes toDataURL lines) = length res"
    using arg_cong [OF pairs, of length] by simp
  have urls: "map qr_url res = filter (encodes toDataURL) lines"
    using arg_cong [OF pairs, of "map fst"] by (simp add: map_fst_successes comp_def)
  have idx: "\<forall>k < length res.
      qr_url (res ! k) = filter (encodes toDataURL) lines ! k \<and>
      toDataURL (filter (encodes toDataURL) lines ! k) = Inr (qr_dataUrl (res ! k))"
  proof (intro allI impI)
    fix k assume k: "k < length res"
    have u: "qr_url (res ! k) = filter (encodes toDataURL) lines ! k"
      using arg_cong [OF urls, of "\<lambda>xs. xs ! k"] k by simp
    have nth: "successes toDataURL lines ! k = (qr_url (res ! k), qr_dataUrl (res ! k))"
      using arg_cong [OF pairs, of "\<lambda>xs. xs ! k"] k by simp
    have "successes toDataURL lines ! k \<in> set (successes toDataURL lines)"
      using k len by simp
    then have "(qr_url (res ! k), qr_dataUrl (res ! k)) \<in> set (successes toDataURL lines)"
      by (simp only: nth)
    then have "toDataURL (qr_url (res ! k)) = Inr (qr_dataUrl (res ! k))"
      by (rule successes_sound)
    with u show "qr_url (res ! k) = filter (encodes toDataURL) lines ! k \<and>
      toDataURL (filter (encodes toDataURL) lines ! k) = Inr (qr_dataUrl (res ! k))"
      by simp
  qed
  show ?thesis
    using pairs idx calls unfolding res_def by (intro conjI)
qed

theorem generateBulk_input_order_witness:
  "urlList (urls sampleBatch) = [js ''ab'', js ''toolong'', js ''cd''] \<and>
   map (\<lambda>q. (qr_url q, qr_dataUrl q)) (qrs (generateBulk sampleCodec decimal sampleBatch)) =
     [(js ''ab'', js ''data:image/png;base64,ab''), (js ''cd'', js ''data:image/png;base64,cd'')] \<and>
   encodeCalls (trace (generateBulk sampleCodec decimal sampleBatch)) =
     [js ''ab'', js ''toolong'', js ''cd'']"
proof -
  have ne: "[js ''ab'', js ''toolong'', js ''cd''] \<noteq> []" by simp
  have f: "successes sampleCodec [js ''ab'', js ''toolong'', js ''cd''] =
     [(js ''ab'', js ''data:image/png;base64,ab''), (js ''cd'', js ''data:image/png;base64,cd'')]"
    by (simp add: sampleCodec_def js_def)
  have t: "encodeCalls (trace sampleBatch) = []" by (simp add: sampleBatch_def)
  note th = generateBulk_input_order [OF sampleBatch_lines ne, of sampleCodec decimal]
  from th have a: "map (\<lambda>q. (qr_url q, qr_dataUrl q)) (qrs (generateBulk sampleCodec decimal sampleBatch)) =
      successes sampleCodec [js ''ab'', js ''toolong'', js ''cd'']" by (rule conjunct1)
  from th have b: "encodeCalls (trace (generateBulk sampleCodec decimal sampleBatch)) =
      encodeCalls (trace sampleBatch) @ [js ''ab'', js ''toolong'', js ''cd'']" by blast
  from a b f t sampleBatch_lines show ?thesis by (simp only: simp_thms append_Nil)
qed


text \<open>
  The claim as written fails on the empty list of lines: \<open>generateBulk\<close> returns before
  \<open>setQrs\<close>, so after an earlier run the first element of the result list is the
  earlier result, while no line of the input encodes.
\<close>

theorem generateBulk_input_order_counterexample:
  "urlList (urls staleBatch) = [] \<and>
   successes sampleCodec (urlList (urls staleBatch)) = [] \<and>
   map (\<lambda>q. (qr_url q, qr_dataUrl q)) (qrs (generateBulk sampleCodec sampleRandom staleBatch)) =
     [(js ''ab'', js ''data:image/png;base64,ab'')]"
proof -
  have e: "successes sampleCodec (urlList (urls staleBatch)) = []"
    by (simp add: staleBatch_lines)
  have "generateBulk sampleCodec sampleRandom staleBatch = staleBatch"
    by (simp add: generateBulk_def staleBatch_lines)
  then have r: "map (\<lambda>q. (qr_url q, qr_dataUrl q))
        (qrs (generateBulk sampleCodec sampleRandom staleBatch)) =
     [(js ''ab'', js ''data:image/png;base64,ab'')]"
    by (simp add: staleBatch_def)
  from staleBatch_lines e r show ?thesis by (intro conjI)
qed

section \<open>C8: the ids of a result list\<close>

lemma decimal_digit: "n < 10 \<Longrightarrow> decimal n = [digit n]"
  by (simp add: decimal.simps)

lemma prefix_inj_on: "inj_on (\<lambda>i. p @ f i) A \<longleftrightarrow> inj_on f A"
  by (simp add: inj_on_def)

text \<open>
  Claim C8, as amended. The ids of a result list are \<open>qr-\<close> followed by what successive
  \<open>Math.random()\<close> calls print, one call per line that encodes; no two of them are
  equal exactly when those random values are pairwise different. Nothing else in
  \<open>generateBulk\<close> keeps ids apart.
\<close>

theorem generateBulk_ids:
  assumes "urlList (urls s) = lines" and "lines \<noteq> []"
    and "length (filter (encodes toDataURL) lines) = K"
  shows "map qr_id (qrs (generateBulk toDataURL random s)) =
           map (\<lambda>i. js ''qr-'' @ random i) [randomCalls s ..< randomCalls s + K] \<and>
         (distinct (map qr_id (qrs (generateBulk toDataURL random s))) \<longleftrightarrow>
            inj_on random {randomCalls s ..< randomCalls s + K})"
proof -
  have ne: "urlList (urls s) \<noteq> []" using assms by simp
  have ids: "map qr_id (qrs (generateBulk toDataURL random s)) =
           map (\<lambda>i. js ''qr-'' @ random i) [randomCalls s ..< randomCalls s + K]"
    using assms(1,3) by (simp add: generateBulk_qrs [OF ne] generateLoop_ids)
  have "distinct (map (\<lambda>i. js ''qr-'' @ random i) [randomCalls s ..< randomCalls s + K]) \<longleftrightarrow>
        inj_on random {randomCalls s ..< randomCalls s + K}"
    by (simp add: distinct_map prefix_inj_on)
  with ids show ?thesis by simp
qed

theorem generateBulk_ids_witness:
  "urlList (urls sampleBatch) = [js ''ab'', js ''toolong'', js ''cd''] \<and>
   map qr_id (qrs (generateBulk sampleCodec sampleRandom sampleBatch)) =
     [js ''qr-0.1'', js ''qr-0.3''] \<and>
   distinct (map qr_id (qrs (generateBulk sampleCodec sampleRandom sampleBatch)))"
proof -
  have ne: "[js ''ab'', js ''toolong'', js ''cd''] \<noteq> []" by simp
  have r: "randomCalls sampleBatch = 0" by (simp add: sampleBatch_def)
  have u: "[0 ..< 0 + (2::nat)] = [0, 1]" by (simp add: upt_conv_Cons)
  have v: "map (\<lambda>i. js ''qr-'' @ sampleRandom i) [0, 1] = [js ''qr-0.1'', js ''qr-0.3'']"
    by (simp add: sampleRandom_def decimal_digit digit_def js_def)
  note th = generateBulk_ids [OF sampleBatch_lines ne sampleBatch_K, of sampleRandom]
  from th have a: "map qr_id (qrs (generateBulk sampleCodec sampleRandom sampleBatch)) =
      map (\<lambda>i. js ''qr-'' @ sampleRandom i) [randomCalls sampleBatch ..< randomCalls sampleBatch + 2]"
    by (rule conjunct1)
  then have b: "map qr_id (qrs (generateBulk sampleCodec sampleRandom sampleBatch)) =
      [js ''qr-0.1'', js ''qr-0.3'']"
    by (simp only: r u v)
  have c: "distinct [js ''qr-0.1'', js ''qr-0.3'']" by (simp add: js_def)
  from b c sampleBatch_lines show ?thesis by (simp only: simp_thms)
qed

text \<open>
  The claim as written fails when \<open>Math.random()\<close> repeats a value: the two results of the
  sample batch then carry the same id.
\<close>

theorem generateBulk_ids_counterexample:
  "\<not> distinct (map qr_id (qrs (generateBulk sampleCodec (\<lambda>n. js ''0.5'') sampleBatch)))"
proof -
  have ne: "urlList (urls sampleBatch) \<noteq> []" by (simp add: sampleBatch_lines)
  have "map qr_id (qrs (generateBulk sampleCodec (\<lambda>n. js ''0.5'') sampleBatch)) =
        [js ''qr-0.5'', js ''qr-0.5'']"
    by (simp add: generateBulk_qrs [OF ne] sampleBatch_lines sampleCodec_def js_def)
  then show ?thesis by simp
qed

section \<open>C3: the file name of an archive entry\<close>

lemma inClass_alnum: "inClass_az09_i c \<longleftrightarrow> c \<in> alnum"
  unfolding inClass_az09_i_def alnum_def Let_def
  by (auto; unat_arith)

lemma replaceAll_map:
  "replaceAll (\<lambda>c. \<not> inClass_az09_i c) (js ''_'') u = map (\<lambda>c. if c \<in> alnum then c else 0x5F) u"
  by (induction u) (simp_all add: inClass_alnum js_def)

lemma fileName_of_chars:
  assumes "u \<noteq> []"
  shows "fileName_of u index = take 50 (map (\<lambda>c. if c \<in> alnum then c else 0x5F) u)"
  using assms by (simp add: fileName_of_def slice0_def Boolean_def replaceAll_map)

text \<open>
  Claim C3. The name \<open>downloadZip\<close> derives for the result at position \<open>index\<close> (from 0)
  is the derivation of the specification at the 1-based index: every code unit outside
  \<open>[a-zA-Z0-9]\<close> replaced by \<open>_\<close>, cut to 50 code units, and \<open>qrcode_\<close> with the
  1-based index when that is empty. \<open>https://a.com/b?c=1\<close> gives
  \<open>https___a_com_b_c_1\<close>, and an empty sanitized name for the third item (position 2)
  gives \<open>qrcode_3\<close>. A name that is not the fallback has at most 50 code units, all of
  them letters, digits or \<open>_\<close>.
\<close>

theorem fileName_of_derivation:
  "fileName_of u index = derivedName u (index + 1) \<and>
   fileName_of (js ''https://a.com/b?c=1'') index = js ''https___a_com_b_c_1'' \<and>
   (take 50 (map (\<lambda>c. if c \<in> alnum then c else 0x5F) u) = [] \<longrightarrow>
      fileName_of u 2 = js ''qrcode_3'') \<and>
   (u \<noteq> [] \<longrightarrow>
      length (fileName_of u index) \<le> 50 \<and> set (fileName_of u index) \<subseteq> alnum \<union> {0x5F})"
proof -
  have a: "fileName_of u index = derivedName u (index + 1)"
    by (simp add: fileName_of_def derivedName_def slice0_def Boolean_def replaceAll_map)
  have b: "fileName_of (js ''https://a.com/b?c=1'') index = js ''https___a_com_b_c_1''"
    by (simp add: fileName_of_def slice0_def Boolean_def inClass_az09_i_def js_def)
  have three: "decimal 3 = js ''3''"
    by (simp add: decimal.simps [of 3] digit_def js_def)
  have c: "take 50 (map (\<lambda>c. if c \<in> alnum then c else 0x5F) u) = [] \<longrightarrow>
      fileName_of u 2 = js ''qrcode_3''"
    by (simp add: fileName_of_def slice0_def Boolean_def replaceAll_map three js_def)
  have d: "u \<noteq> [] \<longrightarrow>
      length (fileName_of u index) \<le> 50 \<and> set (fileName_of u index) \<subseteq> alnum \<union> {0x5F}"
  proof
    assume ne: "u \<noteq> []"
    have "set (take 50 (map (\<lambda>c. if c \<in> alnum then c else 0x5F) u))
          \<subseteq> set (map (\<lambda>c. if c \<in> alnum then c else 0x5F) u)"
      by (rule set_take_subset)
    also have "\<dots> \<subseteq> alnum \<union> {0x5F}" by auto
    finally show "length (fileName_of u index) \<le> 50 \<and> set (fileName_of u index) \<subseteq> alnum \<union> {0x5F}"
      by (simp add: fileName_of_chars [OF ne])
  qed
  from a b c d show ?thesis by (intro conjI)
qed

theorem fileName_of_derivation_witness:
  "take 50 (map (\<lambda>c. if c \<in> alnum then c else 0x5F) ([] :: jsstring)) = [] \<and>
   fileName_of [] 2 = js ''qrcode_3'' \<and>
   js ''abc?'' \<noteq> [] \<and> fileName_of (js ''abc?'') 0 = js ''abc_'' \<and>
   length (fileName_of (js ''abc?'') 0) \<le> 50"
proof -
  have e: "take 50 (map (\<lambda>c. if c \<in> alnum then c else 0x5F) ([] :: jsstring)) = []" by simp
  have n: "js ''abc?'' \<noteq> []" by (simp add: js_def)
  have v: "derivedName (js ''abc?'') (0 + 1) = js ''abc_''"
    by (simp add: derivedName_def alnum_def js_def)
  note th1 = fileName_of_derivation [of "[]" 2]
  note th2 = fileName_of_derivation [of "js ''abc?''" 0]
  from th1 e have a: "fileName_of [] 2 = js ''qrcode_3''" by blast
  from th2 have "fileName_of (js ''abc?'') 0 = derivedName (js ''abc?'') (0 + 1)" by (rule conjunct1)
  then have b: "fileName_of (js ''abc?'') 0 = js ''abc_''" by (simp only: v)
  from th2 n have c: "length (fileName_of (js ''abc?'') 0) \<le> 50" by blast
  from e a n b c show ?thesis by (intro conjI)
qed

section \<open>C7: the archive exporter\<close>

lemma zip_file_names:
  "map fst (zip_file n d z) = (if n \<in> set (map fst z) then map fst z else map fst z @ [n])"
  by (induction n d z rule: zip_file.induct) auto

lemma zip_file_set: "set (map fst (zip_file n d z)) = insert n (set (map fst z))"
  by (auto simp: zip_file_names)

lemma zip_file_distinct: "distinct (map fst z) \<Longrightarrow> distinct (map fst (zip_file n d z))"
  by (simp add: zip_file_names)

lemma zip_file_lookup: "map_of (zip_file n d z) = (map_of z)(n \<mapsto> d)"
  by (induction n d z rule: zip_file.induct) auto

lemma addEntries_set:
  "set (map fst (addEntries qs i z)) = set (map fst z) \<union> set (entryNames qs i)"
  by (induction qs arbitrary: i z) (simp_all add: zip_file_set del: set_map)

lemma addEntries_distinct:
  "distinct (map fst z) \<Longrightarrow> distinct (map fst (addEntries qs i z))"
  by (induction qs arbitrary: i z) (simp_all add: zip_file_distinct)

lemma length_entryNames: "length (entryNames qs i) = length qs"
  by (induction qs arbitrary: i) simp_all

lemma archive_size:
  "length (addEntries qs 0 []) = card (set (entryNames qs 0))"
proof -
  have "distinct (map fst (addEntries qs 0 []))"
    by (rule addEntries_distinct) simp
  then have "card (set (map fst (addEntries qs 0 []))) = length (map fst (addEntries qs 0 []))"
    by (rule distinct_card)
  then show ?thesis by (simp add: addEntries_set del: set_map)
qed

lemma entryList_names: "map fst (entryList qs i) = entryNames qs i"
  by (induction qs arbitrary: i) simp_all

lemma length_entryList: "length (entryList qs i) = length qs"
  by (induction qs arbitrary: i) simp_all

lemma entryList_nth:
  "k < length qs \<Longrightarrow>
   entryList qs i ! k =
     (fileName_of (qr_url (qs ! k)) (i + k) @ js ''.png'', base64Part (qr_dataUrl (qs ! k)))"
proof (induction qs arbitrary: i k)
  case Nil
  then show ?case by simp
next
  case (Cons q qs)
  show ?case
  proof (cases k)
    case 0
    then show ?thesis by simp
  next
    case (Suc m)
    with Cons.prems have "m < length qs" by simp
    from Cons.IH [OF this, of "Suc i"] Suc show ?thesis by simp
  qed
qed

lemma addEntries_lookup:
  "map_of (addEntries qs i z) = map_of z ++ map_of (rev (entryList qs i))"
proof (induction qs arbitrary: i z)
  case Nil
  show ?case by simp
next
  case (Cons q qs)
  let ?n = "fileName_of (qr_url q) i @ js ''.png''"
  let ?d = "base64Part (qr_dataUrl q)"
  have "map_of (addEntries (q # qs) i z) =
        map_of (zip_file ?n ?d z) ++ map_of (rev (entryList qs (Suc i)))"
    by (simp add: Cons.IH)
  also have "\<dots> = (map_of z ++ [?n \<mapsto> ?d]) ++ map_of (rev (entryList qs (Suc i)))"
    by (simp add: zip_file_lookup)
  also have "\<dots> = map_of z ++ ([?n \<mapsto> ?d] ++ map_of (rev (entryList qs (Suc i))))"
    by (simp only: map_add_assoc)
  also have "[?n \<mapsto> ?d] ++ map_of (rev (entryList qs (Suc i))) =
             map_of (rev (entryList (q # qs) i))"
    by (simp add: map_of_append)
  finally show ?case .
qed

lemma remdups_drop_earlier: "x \<in> set ys \<Longrightarrow> remdups (xs @ x # ys) = remdups (xs @ ys)"
  by (induction xs) simp_all

lemma addEntries_order:
  "distinct (map fst z) \<Longrightarrow>
   map fst (addEntries qs i z) = rev (remdups (rev (map fst z @ entryNames qs i)))"
proof (induction qs arbitrary: i z)
  case Nil
  then show ?case by (simp add: distinct_remdups_id)
next
  case (Cons q qs)
  let ?n = "fileName_of (qr_url q) i @ js ''.png''"
  let ?d = "base64Part (qr_dataUrl q)"
  have d: "distinct (map fst (zip_file ?n ?d z))"
    using Cons.prems by (rule zip_file_distinct)
  have "map fst (addEntries (q # qs) i z) =
        rev (remdups (rev (map fst (zip_file ?n ?d z) @ entryNames qs (Suc i))))"
    using Cons.IH [OF d] by simp
  also have "\<dots> = rev (remdups (rev (map fst z @ entryNames (q # qs) i)))"
  proof (cases "?n \<in> set (map fst z)")
    case True
    then have "?n \<in> set (rev (map fst z))" by simp
    from remdups_drop_earlier [OF this, of "rev (entryNames qs (Suc i))"] True
    show ?thesis by (simp add: zip_file_names)
  next
    case False
    then show ?thesis by (simp add: zip_file_names)
  qed
  finally show ?case .
qed

lemma map_of_rev_last:
  "k < length xs \<Longrightarrow>
   (\<And>j. k < j \<Longrightarrow> j < length xs \<Longrightarrow> fst (xs ! j) \<noteq> fst (xs ! k)) \<Longrightarrow>
   map_of (rev xs) (fst (xs ! k)) = Some (snd (xs ! k))"
proof (induction xs rule: rev_induct)
  case Nil
  then show ?case by simp
next
  case (snoc y ys)
  show ?case
  proof (cases "k = length ys")
    case True
    then show ?thesis by simp
  next
    case False
    with snoc.prems(1) have k: "k < length ys" by simp
    have "fst ((ys @ [y]) ! length ys) \<noteq> fst ((ys @ [y]) ! k)"
      using snoc.prems(2) [of "length ys"] k by simp
    then have ne: "fst y \<noteq> fst (ys ! k)"
      using k by (simp add: nth_append)
    have later: "\<And>j. k < j \<Longrightarrow> j < length ys \<Longrightarrow> fst (ys ! j) \<noteq> fst (ys ! k)"
    proof -
      fix j assume "k < j" and "j < length ys"
      with snoc.prems(2) [of j] k show "fst (ys ! j) \<noteq> fst (ys ! k)"
        by (simp add: nth_append)
    qed
    from snoc.IH [OF k later] ne k show ?thesis
      by (simp add: nth_append)
  qed
qed

lemma archive_last_wins:
  assumes k: "k < length qs"
    and later: "\<forall>j. k < j \<and> j < length qs \<longrightarrow>
      fileName_of (qr_url (qs ! j)) j \<noteq> fileName_of (qr_url (qs ! k)) k"
  shows "(fileName_of (qr_url (qs ! k)) k @ js ''.png'', base64Part (qr_dataUrl (qs ! k)))
           \<in> set (addEntries qs 0 [])"
proof -
  let ?xs = "entryList qs 0"
  have kx: "k < length ?xs" using k by (simp add: length_entryList)
  have nth: "\<And>j. j < length qs \<Longrightarrow>
      ?xs ! j = (fileName_of (qr_url (qs ! j)) j @ js ''.png'', base64Part (qr_dataUrl (qs ! j)))"
    using entryList_nth [of _ qs 0] by simp
  have "\<And>j. k < j \<Longrightarrow> j < length ?xs \<Longrightarrow> fst (?xs ! j) \<noteq> fst (?xs ! k)"
  proof -
    fix j assume a: "k < j" and b: "j < length ?xs"
    then have jq: "j < length qs" by (simp add: length_entryList)
    from later a jq have "fileName_of (qr_url (qs ! j)) j \<noteq> fileName_of (qr_url (qs ! k)) k"
      by blast
    then show "fst (?xs ! j) \<noteq> fst (?xs ! k)"
      by (simp add: nth [OF jq] nth [OF k])
  qed
  from map_of_rev_last [OF kx this]
  have "map_of (rev ?xs) (fst (?xs ! k)) = Some (snd (?xs ! k))" .
  then have "map_of (addEntries qs 0 []) (fst (?xs ! k)) = Some (snd (?xs ! k))"
    by (simp add: addEntries_lookup)
  then have "(fst (?xs ! k), snd (?xs ! k)) \<in> set (addEntries qs 0 [])"
    by (rule map_of_SomeD)
  then show ?thesis by (simp add: nth [OF k])
qed

lemma archive_from_results: "set (addEntries qs 0 []) \<subseteq> set (entryList qs 0)"
proof
  fix e assume e: "e \<in> set (addEntries qs 0 [])"
  have "distinct (map fst (addEntries qs 0 []))"
    by (rule addEntries_distinct) simp
  with e have "map_of (addEntries qs 0 []) (fst e) = Some (snd e)"
    by simp
  then have "map_of (rev (entryList qs 0)) (fst e) = Some (snd e)"
    by (simp add: addEntries_lookup)
  then have "(fst e, snd e) \<in> set (rev (entryList qs 0))"
    by (rule map_of_SomeD)
  then show "e \<in> set (entryList qs 0)" by simp
qed

lemma decimal_step: "10 \<le> n \<Longrightarrow> decimal n = decimal (n div 10) @ [digit (n mod 10)]"
  by (simp add: decimal.simps [of n])

lemma sampleNow: "decimal 1700000000000 = js ''1700000000000''"
  by (simp add: decimal_step decimal_digit digit_def js_def)

lemma sampleResults_archive:
  "addEntries (qrs sampleResults) 0 [] =
     [(js ''ab.png'', Some (js ''QQ=='')), (js ''cd.png'', Some (js ''Qg==''))]"
  by (simp add: sampleResults_def fileName_of_def slice0_def Boolean_def inClass_az09_i_def
        base64Part_def js_def)

lemma sampleColliding_archive:
  "addEntries (qrs sampleColliding) 0 [] = [(js ''a_b.png'', Some (js ''Qg==''))]"
  by (simp add: sampleColliding_def fileName_of_def slice0_def Boolean_def inClass_az09_i_def
        base64Part_def js_def)

text \<open>
  Claim C7, as amended. \<open>downloadZip\<close> leaves the result list, and the rest of the view,
  as they were. It adds one entry per result, in list order, under the derived names, a
  later entry replacing an earlier one of the same name. So the archive has each derived
  name once, at the place of the first result that derives it, with the base64 text of
  the last result that derives it: a result that no later result shares its name with
  has its own entry, and every entry is the name and image of some result. The archive
  has one entry per different derived name, never more entries than results, and one
  per result exactly when the derived names are pairwise different. The blob is handed
  to the download trigger only when the archive library produces it, under the name
  \<open>qrcodes_<now>.zip\<close>; when the library fails nothing is downloaded, so no partial
  archive reaches the user, and the handler reports nothing.
\<close>

theorem downloadZip_export:
  "urls (downloadZip generateAsync now s) = urls s \<and>
   qrs (downloadZip generateAsync now s) = qrs s \<and>
   isLoading (downloadZip generateAsync now s) = isLoading s \<and>
   randomCalls (downloadZip generateAsync now s) = randomCalls s \<and>
   (\<forall>content. generateAsync (addEntries (qrs s) 0 []) = Inr content \<longrightarrow>
      trace (downloadZip generateAsync now s) =
        trace s @ [SaveAs content (js ''qrcodes_'' @ decimal now @ js ''.zip'')]) \<and>
   (\<forall>err. generateAsync (addEntries (qrs s) 0 []) = Inl err \<longrightarrow>
      downloadZip generateAsync now s = s) \<and>
   distinct (map fst (addEntries (qrs s) 0 [])) \<and>
   set (map fst (addEntries (qrs s) 0 [])) = set (entryNames (qrs s) 0) \<and>
   length (addEntries (qrs s) 0 []) = card (set (entryNames (qrs s) 0)) \<and>
   length (addEntries (qrs s) 0 []) \<le> length (qrs s) \<and>
   (length (addEntries (qrs s) 0 []) = length (qrs s) \<longleftrightarrow> distinct (entryNames (qrs s) 0)) \<and>
   map fst (addEntries (qrs s) 0 []) = rev (remdups (rev (entryNames (qrs s) 0))) \<and>
   map_of (addEntries (qrs s) 0 []) = map_of (rev (entryList (qrs s) 0)) \<and>
   set (addEntries (qrs s) 0 []) \<subseteq> set (entryList (qrs s) 0) \<and>
   (\<forall>k. k < length (qrs s) \<and>
        (\<forall>j. k < j \<and> j < length (qrs s) \<longrightarrow>
           fileName_of (qr_url (qrs s ! j)) j \<noteq> fileName_of (qr_url (qrs s ! k)) k) \<longrightarrow>
      (fileName_of (qr_url (qrs s ! k)) k @ js ''.png'', base64Part (qr_dataUrl (qrs s ! k)))
        \<in> set (addEntries (qrs s) 0 []))"
proof -
  have frame: "urls (downloadZip generateAsync now s) = urls s \<and>
   qrs (downloadZip generateAsync now s) = qrs s \<and>
   isLoading (downloadZip generateAsync now s) = isLoading s \<and>
   randomCalls (downloadZip generateAsync now s) = randomCalls s"
    by (simp add: downloadZip_def Let_def split: sum.splits)
  have ok: "\<forall>content. generateAsync (addEntries (qrs s) 0 []) = Inr content \<longrightarrow>
      trace (downloadZip generateAsync now s) =
        trace s @ [SaveAs content (js ''qrcodes_'' @ decimal now @ js ''.zip'')]"
    by (simp add: downloadZip_def Let_def)
  have bad: "\<forall>err. generateAsync (addEntries (qrs s) 0 []) = Inl err \<longrightarrow>
      downloadZip generateAsync now s = s"
    by (simp add: downloadZip_def Let_def)
  have d: "distinct (map fst (addEntries (qrs s) 0 []))"
    by (rule addEntries_distinct) simp
  have names: "set (map fst (addEntries (qrs s) 0 [])) = set (entryNames (qrs s) 0)"
    by (simp add: addEntries_set del: set_map)
  have size: "length (addEntries (qrs s) 0 []) = card (set (entryNames (qrs s) 0))"
    by (rule archive_size)
  have le: "length (addEntries (qrs s) 0 []) \<le> length (qrs s)"
    using card_length [of "entryNames (qrs s) 0"] by (simp add: size length_entryNames)
  have eq: "length (addEntries (qrs s) 0 []) = length (qrs s) \<longleftrightarrow> distinct (entryNames (qrs s) 0)"
    using card_distinct [of "entryNames (qrs s) 0"] distinct_card [of "entryNames (qrs s) 0"]
    by (auto simp: size length_entryNames)
  have order: "map fst (addEntries (qrs s) 0 []) = rev (remdups (rev (entryNames (qrs s) 0)))"
    using addEntries_order [of "[]" "qrs s" 0] by simp
  have look: "map_of (addEntries (qrs s) 0 []) = map_of (rev (entryList (qrs s) 0))"
    by (simp add: addEntries_lookup)
  have sub: "set (addEntries (qrs s) 0 []) \<subseteq> set (entryList (qrs s) 0)"
    by (rule archive_from_results)
  have last: "\<forall>k. k < length (qrs s) \<and>
        (\<forall>j. k < j \<and> j < length (qrs s) \<longrightarrow>
           fileName_of (qr_url (qrs s ! j)) j \<noteq> fileName_of (qr_url (qrs s ! k)) k) \<longrightarrow>
      (fileName_of (qr_url (qrs s ! k)) k @ js ''.png'', base64Part (qr_dataUrl (qrs s ! k)))
        \<in> set (addEntries (qrs s) 0 [])"
  proof (intro allI impI)
    fix k
    assume h: "k < length (qrs s) \<and>
        (\<forall>j. k < j \<and> j < length (qrs s) \<longrightarrow>
           fileName_of (qr_url (qrs s ! j)) j \<noteq> fileName_of (qr_url (qrs s ! k)) k)"
    from h have k: "k < length (qrs s)" by (rule conjunct1)
    from h have l: "\<forall>j. k < j \<and> j < length (qrs s) \<longrightarrow>
           fileName_of (qr_url (qrs s ! j)) j \<noteq> fileName_of (qr_url (qrs s ! k)) k"
      by (rule conjunct2)
    from archive_last_wins [OF k l]
    show "(fileName_of (qr_url (qrs s ! k)) k @ js ''.png'', base64Part (qr_dataUrl (qrs s ! k)))
        \<in> set (addEntries (qrs s) 0 [])" .
  qed
  from frame have f1: "urls (downloadZip generateAsync now s) = urls s"
    and f2: "qrs (downloadZip generateAsync now s) = qrs s"
    and f3: "isLoading (downloadZip generateAsync now s) = isLoading s"
    and f4: "randomCalls (downloadZip generateAsync now s) = randomCalls s"
    by simp_all
  from f1 f2 f3 f4 ok bad d names size le eq order look sub last show ?thesis
    by (intro conjI)
qed

theorem downloadZip_export_witness:
  "sampleArchiver (addEntries (qrs sampleResults) 0 []) = Inr [6, 6] \<and>
   trace (downloadZip sampleArchiver 1700000000000 sampleResults) =
     [SaveAs [6, 6] (js ''qrcodes_1700000000000.zip'')] \<and>
   failingArchiver (addEntries (qrs sampleResults) 0 []) = Inl (Error (js ''Invalid base64 input'')) \<and>
   downloadZip failingArchiver 1700000000000 sampleResults = sampleResults \<and>
   length (addEntries (qrs sampleResults) 0 []) = length (qrs sampleResults) \<and>
   (js ''cd.png'', Some (js ''Qg=='')) \<in> set (addEntries (qrs sampleResults) 0 []) \<and>
   (js ''a_b.png'', Some (js ''Qg=='')) \<in> set (addEntries (qrs sampleColliding) 0 [])"
proof -
  have g: "sampleArchiver (addEntries (qrs sampleResults) 0 []) = Inr [6, 6]"
    by (simp add: sampleResults_archive sampleArchiver_def js_def)
  have f: "failingArchiver (addEntries (qrs sampleResults) 0 []) = Inl (Error (js ''Invalid base64 input''))"
    by (simp add: failingArchiver_def)
  note n = sampleNow
  have t: "trace sampleResults = []" by (simp add: sampleResults_def)
  have dn: "distinct (entryNames (qrs sampleResults) 0)"
    by (simp add: sampleResults_def fileName_of_def slice0_def Boolean_def inClass_az09_i_def js_def)
  note th1 = downloadZip_export [of sampleArchiver 1700000000000 sampleResults]
  note th2 = downloadZip_export [of failingArchiver 1700000000000 sampleResults]
  note th3 = downloadZip_export [of sampleArchiver 1700000000000 sampleColliding]
  from th1 g have "trace (downloadZip sampleArchiver 1700000000000 sampleResults) =
     trace sampleResults @ [SaveAs [6, 6] (js ''qrcodes_'' @ decimal 1700000000000 @ js ''.zip'')]"
    by blast
  then have a: "trace (downloadZip sampleArchiver 1700000000000 sampleResults) =
     [SaveAs [6, 6] (js ''qrcodes_1700000000000.zip'')]"
    by (simp add: t n js_def)
  from th2 f have b: "downloadZip failingArchiver 1700000000000 sampleResults = sampleResults"
    by blast
  from th1 dn have c: "length (addEntries (qrs sampleResults) 0 []) = length (qrs sampleResults)"
    by blast
  have last1: "1 < length (qrs sampleResults) \<and>
        (\<forall>j. 1 < j \<and> j < length (qrs sampleResults) \<longrightarrow>
           fileName_of (qr_url (qrs sampleResults ! j)) j \<noteq>
           fileName_of (qr_url (qrs sampleResults ! 1)) 1)"
  proof -
    have "length (qrs sampleResults) = 2" by (simp add: sampleResults_def)
    then show ?thesis by auto
  qed
  have e1: "(fileName_of (qr_url (qrs sampleResults ! 1)) 1 @ js ''.png'',
             base64Part (qr_dataUrl (qrs sampleResults ! 1))) =
            (js ''cd.png'', Some (js ''Qg==''))"
    by (simp add: sampleResults_def fileName_of_def slice0_def Boolean_def inClass_az09_i_def
          base64Part_def js_def)
  from th1 have "\<forall>k. k < length (qrs sampleResults) \<and>
        (\<forall>j. k < j \<and> j < length (qrs sampleResults) \<longrightarrow>
           fileName_of (qr_url (qrs sampleResults ! j)) j \<noteq>
           fileName_of (qr_url (qrs sampleResults ! k)) k) \<longrightarrow>
      (fileName_of (qr_url (qrs sampleResults ! k)) k @ js ''.png'',
       base64Part (qr_dataUrl (qrs sampleResults ! k)))
        \<in> set (addEntries (qrs sampleResults) 0 [])"
    by (elim conjE)
  from this [rule_format, OF last1] have d1:
    "(js ''cd.png'', Some (js ''Qg=='')) \<in> set (addEntries (qrs sampleResults) 0 [])"
    by (simp only: e1)
  have last2: "1 < length (qrs sampleColliding) \<and>
        (\<forall>j. 1 < j \<and> j < length (qrs sampleColliding) \<longrightarrow>
           fileName_of (qr_url (qrs sampleColliding ! j)) j \<noteq>
           fileName_of (qr_url (qrs sampleColliding ! 1)) 1)"
  proof -
    have "length (qrs sampleColliding) = 2" by (simp add: sampleColliding_def)
    then show ?thesis by auto
  qed
  have e2: "(fileName_of (qr_url (qrs sampleColliding ! 1)) 1 @ js ''.png'',
             base64Part (qr_dataUrl (qrs sampleColliding ! 1))) =
            (js ''a_b.png'', Some (js ''Qg==''))"
    by (simp add: sampleColliding_def fileName_of_def slice0_def Boolean_def inClass_az09_i_def
          base64Part_def js_def)
  from th3 have "\<forall>k. k < length (qrs sampleColliding) \<and>
        (\<forall>j. k < j \<and> j < length (qrs sampleColliding) \<longrightarrow>
           fileName_of (qr_url (qrs sampleColliding ! j)) j \<noteq>
           fileName_of (qr_url (qrs sampleColliding ! k)) k) \<longrightarrow>
      (fileName_of (qr_url (qrs sampleColliding ! k)) k @ js ''.png'',
       base64Part (qr_dataUrl (qrs sampleColliding ! k)))
        \<in> set (addEntries (qrs sampleColliding) 0 [])"
    by (elim conjE)
  from this [rule_format, OF last2] have d2:
    "(js ''a_b.png'', Some (js ''Qg=='')) \<in> set (addEntries (qrs sampleColliding) 0 [])"
    by (simp only: e2)
  from g a f b c d1 d2 show ?thesis by (intro conjI)
qed

text \<open>
  The claim as written fails on a batch of two lines that derive the same file name:
  the two results share one entry, which holds the image of the second, so the blob
  that is saved has one entry for two results; and when the archive library fails, no
  blob is saved and no failure is reported.
\<close>

theorem downloadZip_export_counterexample:
  "length (qrs sampleColliding) = 2 \<and>
   addEntries (qrs sampleColliding) 0 [] = [(js ''a_b.png'', Some (js ''Qg==''))] \<and>
   trace (downloadZip sampleArchiver 1700000000000 sampleColliding) =
     [SaveAs [7] (js ''qrcodes_1700000000000.zip'')] \<and>
   trace (downloadZip failingArchiver 1700000000000 sampleColliding) = []"
proof -
  note n = sampleNow
  have a: "length (qrs sampleColliding) = 2" by (simp add: sampleColliding_def)
  have t: "trace sampleColliding = []" by (simp add: sampleColliding_def)
  have c: "trace (downloadZip sampleArchiver 1700000000000 sampleColliding) =
     [SaveAs [7] (js ''qrcodes_1700000000000.zip'')]"
    by (simp add: downloadZip_def sampleColliding_archive sampleArchiver_def t n js_def)
  have d: "trace (downloadZip failingArchiver 1700000000000 sampleColliding) = []"
    by (simp add: downloadZip_def failingArchiver_def t)
  from a sampleColliding_archive c d show ?thesis by (intro conjI)
qed

section \<open>C2: more than ten uploaded files\<close>

lemma capturing_eq:
  "capturing = \<lparr>scanResults = [], isScanning = True, isProcessingFile = False,
                 scannerRef = Some (Html5Qrcode True), scanTrace = [StartCapture]\<rparr>"
  by (simp add: capturing_def startScan_def idleScanner_def)

text \<open>
  Claim C2. For a file list of more than 10 files, \<open>handleFileChange\<close> shows the notice
  that at most 10 files can be uploaded, resets the file input and returns: no file is
  handed to the decoder, and the results and the processing flag stay as they were.
\<close>

theorem handleFileChange_too_many:
  assumes "length fs > 10"
  shows "handleFileChange scanFile (Some fs) s =
           s\<lparr>scanTrace := scanTrace s @
                [Alert (js ''You can upload a maximum of 10 files at a time.''), ClearInput]\<rparr> \<and>
         decodeCalls (scanTrace (handleFileChange scanFile (Some fs) s)) = decodeCalls (scanTrace s) \<and>
         scanResults (handleFileChange scanFile (Some fs) s) = scanResults s \<and>
         isProcessingFile (handleFileChange scanFile (Some fs) s) = isProcessingFile s"
proof -
  from assms have ne: "fs \<noteq> []" by auto
  from assms ne show ?thesis by (simp add: handleFileChange_def decodeCalls_append)
qed

theorem handleFileChange_too_many_witness:
  "length (map sampleFile [0 ..< 11]) > 10 \<and>
   scanTrace (handleFileChange sampleDecoder (Some (map sampleFile [0 ..< 11])) idleScanner) =
     [Alert (js ''You can upload a maximum of 10 files at a time.''), ClearInput] \<and>
   decodeCalls (scanTrace (handleFileChange sampleDecoder (Some (map sampleFile [0 ..< 11])) idleScanner)) = []"
proof -
  have l: "length (map sampleFile [0 ..< 11]) > 10" by simp
  have t: "scanTrace idleScanner = []" by (simp add: idleScanner_def)
  note th = handleFileChange_too_many [OF l, of sampleDecoder idleScanner]
  from th have "handleFileChange sampleDecoder (Some (map sampleFile [0 ..< 11])) idleScanner =
      idleScanner\<lparr>scanTrace := scanTrace idleScanner @
                [Alert (js ''You can upload a maximum of 10 files at a time.''), ClearInput]\<rparr>"
    by (rule conjunct1)
  then have a: "scanTrace (handleFileChange sampleDecoder (Some (map sampleFile [0 ..< 11])) idleScanner) =
     [Alert (js ''You can upload a maximum of 10 files at a time.''), ClearInput]"
    by (simp add: t)
  from th have "decodeCalls (scanTrace (handleFileChange sampleDecoder (Some (map sampleFile [0 ..< 11])) idleScanner)) =
      decodeCalls (scanTrace idleScanner)" by blast
  then have b: "decodeCalls (scanTrace (handleFileChange sampleDecoder (Some (map sampleFile [0 ..< 11])) idleScanner)) = []"
    by (simp add: t)
  from l a b show ?thesis by (intro conjI)
qed

section \<open>C9: stopping when nothing is captured\<close>

text \<open>
  Claim C9. When no capture session is active (there is no scanner instance, or the
  instance is not scanning), \<open>stopScan\<close> changes nothing, however a stop would have
  settled: the view, the scanner reference and the effects are as before, and nothing is
  raised or logged.
\<close>

theorem stopScan_inactive:
  assumes "scannerRef s = None \<or> (\<exists>sc. scannerRef s = Some sc \<and> \<not> h5_isScanning sc)"
  shows "stopScan stopped s = s"
  using assms by (auto simp: stopScan_def)

theorem stopScan_inactive_witness:
  "scannerRef idleScanner = None \<and>
   stopScan None idleScanner = idleScanner \<and>
   stopScan (Some (Error (js ''Cannot stop''))) idleScanner = idleScanner \<and>
   scannerRef (startScan (Inr 1) (Some (Error (js ''NotAllowedError''))) idleScanner) = Some (Html5Qrcode False) \<and>
   stopScan None (startScan (Inr 1) (Some (Error (js ''NotAllowedError''))) idleScanner) =
     startScan (Inr 1) (Some (Error (js ''NotAllowedError''))) idleScanner"
proof -
  have n: "scannerRef idleScanner = None" by (simp add: idleScanner_def)
  then have h: "scannerRef idleScanner = None \<or>
      (\<exists>sc. scannerRef idleScanner = Some sc \<and> \<not> h5_isScanning sc)" by (rule disjI1)
  have r: "scannerRef (startScan (Inr 1) (Some (Error (js ''NotAllowedError''))) idleScanner) = Some (Html5Qrcode False)"
    by (simp add: startScan_def idleScanner_def)
  then have h2: "scannerRef (startScan (Inr 1) (Some (Error (js ''NotAllowedError''))) idleScanner) = None \<or>
      (\<exists>sc. scannerRef (startScan (Inr 1) (Some (Error (js ''NotAllowedError''))) idleScanner) = Some sc \<and> \<not> h5_isScanning sc)"
    by simp
  from n stopScan_inactive [OF h, of None] stopScan_inactive [OF h, of "Some (Error (js ''Cannot stop''))"]
    r stopScan_inactive [OF h2, of None]
  show ?thesis by (intro conjI)
qed

section \<open>C5: the first decoded frame\<close>

text \<open>
  Claim C5, as amended. While capturing (the scanner instance is scanning), a decoded
  frame replaces the results by exactly one result labelled \<open>Camera Scan\<close> with the
  decoded text, asks the scanner to stop at once and leaves the view idle. When the stop
  succeeds the scanner reference is cleared and the device is released; when the stop
  fails the failure is logged, the view is forced idle all the same and the scanner
  instance is kept as it was.
\<close>

theorem onScanSuccess_stops:
  assumes "scannerRef s = Some sc" and "h5_isScanning sc"
  shows "scanResults (onScanSuccess stopped text s) =
           [\<lparr>fileName = js ''Camera Scan'', decodedText = text\<rparr>] \<and>
         \<not> isScanning (onScanSuccess stopped text s) \<and>
         (stopped = None \<longrightarrow>
            scannerRef (onScanSuccess stopped text s) = None \<and>
            scanTrace (onScanSuccess stopped text s) = scanTrace s @ [StopCapture]) \<and>
         (\<forall>err. stopped = Some err \<longrightarrow>
            scannerRef (onScanSuccess stopped text s) = Some sc \<and>
            scanTrace (onScanSuccess stopped text s) =
              scanTrace s @ [StopCapture, ConsoleError (js ''Failed to stop scanner'') err])"
  using assms by (cases stopped) (simp_all add: onScanSuccess_def stopScan_def Let_def)

theorem onScanSuccess_stops_witness:
  "scannerRef capturing = Some (Html5Qrcode True) \<and>
   scanResults (onScanSuccess None (js ''https://x.com'') capturing) =
     [\<lparr>fileName = js ''Camera Scan'', decodedText = js ''https://x.com''\<rparr>] \<and>
   \<not> isScanning (onScanSuccess None (js ''https://x.com'') capturing) \<and>
   scannerRef (onScanSuccess None (js ''https://x.com'') capturing) = None \<and>
   scanTrace (onScanSuccess None (js ''https://x.com'') capturing) = [StartCapture, StopCapture]"
proof -
  have r: "scannerRef capturing = Some (Html5Qrcode True)" by (simp add: capturing_eq)
  have i: "h5_isScanning (Html5Qrcode True)" by simp
  have t: "scanTrace capturing = [StartCapture]" by (simp add: capturing_eq)
  note th = onScanSuccess_stops [OF r i, of None "js ''https://x.com''"]
  from th have a: "scanResults (onScanSuccess None (js ''https://x.com'') capturing) =
     [\<lparr>fileName = js ''Camera Scan'', decodedText = js ''https://x.com''\<rparr>]" by (rule conjunct1)
  from th have b: "\<not> isScanning (onScanSuccess None (js ''https://x.com'') capturing)" by blast
  from th have c: "scannerRef (onScanSuccess None (js ''https://x.com'') capturing) = None" by blast
  from th have "scanTrace (onScanSuccess None (js ''https://x.com'') capturing) =
      scanTrace capturing @ [StopCapture]" by blast
  then have d: "scanTrace (onScanSuccess None (js ''https://x.com'') capturing) = [StartCapture, StopCapture]"
    by (simp add: t)
  from r a b c d show ?thesis by (intro conjI)
qed

text \<open>
  The claim as written fails when the stop request is rejected: the view goes idle while
  the scanner instance, still scanning, stays in \<open>scannerRef\<close>.
\<close>

theorem onScanSuccess_stops_counterexample:
  "isScanning capturing \<and>
   scannerRef capturing = Some (Html5Qrcode True) \<and>
   \<not> isScanning (onScanSuccess (Some (Error (js ''stop failed''))) (js ''https://x.com'') capturing) \<and>
   scannerRef (onScanSuccess (Some (Error (js ''stop failed''))) (js ''https://x.com'') capturing) =
     Some (Html5Qrcode True)"
  by (simp add: capturing_eq onScanSuccess_def stopScan_def)

section \<open>C6: the empty input\<close>

text \<open>
  Claim C6, as amended. When the textarea holds no non-blank line, \<open>generateBulk\<close>
  returns at once and changes nothing; when no file was chosen (\<open>null\<close> or an empty
  list), so does \<open>handleFileChange\<close>. No codec call is made and no notice is shown,
  and the result list of the view is left as it was: empty if it was empty, the results
  of the earlier run otherwise.
\<close>

theorem empty_input_noop:
  "(urlList (urls s) = [] \<longrightarrow>
      generateBulk toDataURL random s = s \<and>
      encodeCalls (trace (generateBulk toDataURL random s)) = encodeCalls (trace s)) \<and>
   handleFileChange scanFile None t = t \<and>
   handleFileChange scanFile (Some []) t = t \<and>
   decodeCalls (scanTrace (handleFileChange scanFile (Some []) t)) = decodeCalls (scanTrace t)"
  by (simp add: generateBulk_def handleFileChange_def)

theorem empty_input_noop_witness:
  "urlList (urls staleBatch) = [] \<and>
   generateBulk sampleCodec sampleRandom staleBatch = staleBatch \<and>
   urlList (urls (sampleBatch\<lparr>urls := []\<rparr>)) = [] \<and>
   qrs (generateBulk sampleCodec sampleRandom (sampleBatch\<lparr>urls := []\<rparr>)) = []"
proof -
  have e: "urlList (urls (sampleBatch\<lparr>urls := []\<rparr>)) = []"
    by (simp add: urlList_def trim_def Boolean_def)
  note th1 = empty_input_noop [of staleBatch sampleCodec sampleRandom sampleDecoder idleScanner]
  note th2 = empty_input_noop [of "sampleBatch\<lparr>urls := []\<rparr>" sampleCodec sampleRandom sampleDecoder idleScanner]
  from th1 staleBatch_lines have a: "generateBulk sampleCodec sampleRandom staleBatch = staleBatch"
    by blast
  from th2 e have "generateBulk sampleCodec sampleRandom (sampleBatch\<lparr>urls := []\<rparr>) = sampleBatch\<lparr>urls := []\<rparr>"
    by blast
  then have b: "qrs (generateBulk sampleCodec sampleRandom (sampleBatch\<lparr>urls := []\<rparr>)) = []"
    by (simp add: sampleBatch_def)
  from staleBatch_lines a e b show ?thesis by (intro conjI)
qed

text \<open>
  The claim as written fails after an earlier run: on an empty input both handlers
  return with the earlier results still in place, not with an empty result.
\<close>

theorem empty_input_counterexample:
  "urlList (urls staleBatch) = [] \<and>
   qrs (generateBulk sampleCodec sampleRandom staleBatch) \<noteq> [] \<and>
   scanResults (handleFileChange sampleDecoder (Some []) staleScanner) \<noteq> [] \<and>
   scanResults (handleFileChange sampleDecoder None staleScanner) \<noteq> []"
proof -
  have "generateBulk sampleCodec sampleRandom staleBatch = staleBatch"
    by (simp add: generateBulk_def staleBatch_lines)
  then have a: "qrs (generateBulk sampleCodec sampleRandom staleBatch) \<noteq> []"
    by (simp add: staleBatch_def)
  have b: "scanResults (handleFileChange sampleDecoder (Some []) staleScanner) \<noteq> []"
    by (simp add: handleFileChange_def staleScanner_def)
  have c: "scanResults (handleFileChange sampleDecoder None staleScanner) \<noteq> []"
    by (simp add: handleFileChange_def staleScanner_def)
  from staleBatch_lines a b c show ?thesis by (intro conjI)
qed

section \<open>C4: the result classifier\<close>

lemma protocol_allowed:
  "List.member [js ''https:'', js ''http:'', js ''mailto:'', js ''tel:''] (protocol u) \<longleftrightarrow>
   scheme u \<in> allowed"
proof -
  have "js ''https:'' = js ''https'' @ js '':''" "js ''http:'' = js ''http'' @ js '':''"
       "js ''mailto:'' = js ''mailto'' @ js '':''" "js ''tel:'' = js ''tel'' @ js '':''"
    by (simp_all add: js_def)
  then show ?thesis
    by (simp add: protocol_def allowed_def)
qed

lemma isSafeUrl_iff:
  "isSafeUrl newURL text \<longleftrightarrow> (\<exists>u. newURL text = Inr u \<and> scheme u \<in> allowed)"
  by (cases "newURL text") (simp_all add: isSafeUrl_def protocol_allowed [simplified])

text \<open>
  Claim C4. A text is classified as a link exactly when the platform's parser accepts
  it and the scheme of the parsed URL is one of \<open>https\<close>, \<open>http\<close>, \<open>mailto\<close>,
  \<open>tel\<close>; every other text is plain text, and a text the parser refuses is plain text
  rather than an error. With the parser's answers on them, \<open>https://x.com\<close> and
  \<open>tel:+123\<close> are links, \<open>ftp://x.com\<close> and \<open>hello world\<close> are plain text.
\<close>

theorem isSafeUrl_classifies:
  "(classify newURL text = Link \<longleftrightarrow>
      (\<exists>u. newURL text = Inr u \<and> scheme u \<in> allowed)) \<and>
   (classify newURL text = PlainText \<longleftrightarrow>
      \<not> (\<exists>u. newURL text = Inr u \<and> scheme u \<in> allowed)) \<and>
   (\<forall>e. newURL text = Inl e \<longrightarrow> classify newURL text = PlainText) \<and>
   (\<forall>h. newURL (js ''https://x.com'') = Inr \<lparr>scheme = js ''https'', href = h\<rparr> \<longrightarrow>
      classify newURL (js ''https://x.com'') = Link) \<and>
   (\<forall>h. newURL (js ''tel:+123'') = Inr \<lparr>scheme = js ''tel'', href = h\<rparr> \<longrightarrow>
      classify newURL (js ''tel:+123'') = Link) \<and>
   (\<forall>h. newURL (js ''ftp://x.com'') = Inr \<lparr>scheme = js ''ftp'', href = h\<rparr> \<longrightarrow>
      classify newURL (js ''ftp://x.com'') = PlainText) \<and>
   (\<forall>e. newURL (js ''hello world'') = Inl e \<longrightarrow>
      classify newURL (js ''hello world'') = PlainText)"
proof -
  have a: "classify newURL text = Link \<longleftrightarrow> (\<exists>u. newURL text = Inr u \<and> scheme u \<in> allowed)"
    by (simp add: classify_def isSafeUrl_iff)
  have b: "classify newURL text = PlainText \<longleftrightarrow>
      \<not> (\<exists>u. newURL text = Inr u \<and> scheme u \<in> allowed)"
    by (simp add: classify_def isSafeUrl_iff)
  have c: "\<forall>e. newURL text = Inl e \<longrightarrow> classify newURL text = PlainText"
    by (simp add: classify_def isSafeUrl_def)
  have d: "\<forall>h. newURL (js ''https://x.com'') = Inr \<lparr>scheme = js ''https'', href = h\<rparr> \<longrightarrow>
      classify newURL (js ''https://x.com'') = Link"
    by (simp add: classify_def isSafeUrl_iff allowed_def)
  have e: "\<forall>h. newURL (js ''tel:+123'') = Inr \<lparr>scheme = js ''tel'', href = h\<rparr> \<longrightarrow>
      classify newURL (js ''tel:+123'') = Link"
    by (simp add: classify_def isSafeUrl_iff allowed_def)
  have "js ''ftp'' \<notin> allowed" by (simp add: allowed_def js_def)
  then have f: "\<forall>h. newURL (js ''ftp://x.com'') = Inr \<lparr>scheme = js ''ftp'', href = h\<rparr> \<longrightarrow>
      classify newURL (js ''ftp://x.com'') = PlainText"
    by (simp add: classify_def isSafeUrl_iff)
  have g: "\<forall>e. newURL (js ''hello world'') = Inl e \<longrightarrow>
      classify newURL (js ''hello world'') = PlainText"
    by (simp add: classify_def isSafeUrl_def)
  from a b c d e f g show ?thesis by (intro conjI)
qed

theorem isSafeUrl_classifies_witness:
  "urlTable (js ''https://x.com'') = Inr \<lparr>scheme = js ''https'', href = js ''https://x.com/''\<rparr> \<and>
   classify urlTable (js ''https://x.com'') = Link \<and>
   urlTable (js ''tel:+123'') = Inr \<lparr>scheme = js ''tel'', href = js ''tel:+123''\<rparr> \<and>
   classify urlTable (js ''tel:+123'') = Link \<and>
   urlTable (js ''ftp://x.com'') = Inr \<lparr>scheme = js ''ftp'', href = js ''ftp://x.com/''\<rparr> \<and>
   classify urlTable (js ''ftp://x.com'') = PlainText \<and>
   urlTable (js ''hello world'') = Inl (Error (js ''Invalid URL'')) \<and>
   classify urlTable (js ''hello world'') = PlainText"
proof -
  have p1: "urlTable (js ''https://x.com'') = Inr \<lparr>scheme = js ''https'', href = js ''https://x.com/''\<rparr>"
    by (simp add: urlTable_def)
  have p2: "urlTable (js ''tel:+123'') = Inr \<lparr>scheme = js ''tel'', href = js ''tel:+123''\<rparr>"
    by (simp add: urlTable_def js_def)
  have p3: "urlTable (js ''ftp://x.com'') = Inr \<lparr>scheme = js ''ftp'', href = js ''ftp://x.com/''\<rparr>"
    by (simp add: urlTable_def js_def)
  have p4: "urlTable (js ''hello world'') = Inl (Error (js ''Invalid URL''))"
    by (simp add: urlTable_def js_def)
  note th = isSafeUrl_classifies [of urlTable "js ''hello world''"]
  from th p1 have c1: "classify urlTable (js ''https://x.com'') = Link" by blast
  from th p2 have c2: "classify urlTable (js ''tel:+123'') = Link" by blast
  from th p3 have c3: "classify urlTable (js ''ftp://x.com'') = PlainText" by blast
  from th p4 have c4: "classify urlTable (js ''hello world'') = PlainText" by blast
  from p1 c1 p2 c2 p3 c3 p4 c4 show ?thesis by (intro conjI)
qed

end
